theory Spec2Isabelle
  imports Main "HOL-Library.Word"
begin

unbundle bit_operations_syntax

text \<open>A model of the CAN messaging layer of \<open>mc_drivers_common\<close>: the addressing function
  \<open>mcan_connect_msg_id_with_node_id\<close>, the segmenter \<open>mcan_pack_send_msg\<close> and the
  reassembler \<open>mcan_unpack_msg\<close>, over byte lists, machine words and an abstract bus, and
  the properties of segmentation and reassembly proved of them.\<close>

section \<open>Data model\<close>

type_synonym u8 = "8 word"
type_synonym u32 = "32 word"

text \<open>\<open>size_t\<close> is taken to be 64 bits wide (the host build of the library).\<close>

type_synonym size_t = "64 word"

subsection \<open>status.hpp: \<open>StatusCode\<close> and \<open>Status\<close>\<close>

datatype StatusCode =
    OK | OutOfMemory | KeyError | TypeError | Invalid | IOError | CapacityError
  | IndexError | Cancelled | UnknownError | NotImplemented | SerializationError
  | RError | CodeGenError | ExpressionValidationError | ExecutionError
  | AlreadyExists | TimeOut

text \<open>The class \<open>Status\<close>: its two private members \<open>_status\<close> and \<open>_message\<close>.
  The private constructor stores \<open>status_message + message\<close>.\<close>

record Status =
  status_code :: StatusCode
  message :: string

definition Status_OK :: Status where
  "Status_OK = \<lparr>status_code = OK, message = ''OK'' @ ''''\<rparr>"

definition Status_Invalid :: "string \<Rightarrow> Status" where
  "Status_Invalid msg = \<lparr>status_code = Invalid, message = ''Invalid|'' @ msg\<rparr>"

definition Status_Cancelled :: "string \<Rightarrow> Status" where
  "Status_Cancelled msg = \<lparr>status_code = Cancelled, message = ''Cancelled|'' @ msg\<rparr>"

definition ok :: "Status \<Rightarrow> bool" where
  "ok s = (status_code s = OK)"

subsection \<open>can_base.hpp: \<open>CanFrame\<close>\<close>

text \<open>The struct \<open>CanFrame\<close>; \<open>id_f\<close>, \<open>size_f\<close> and \<open>data_f\<close> are its fields \<open>id\<close>,
  \<open>size\<close> and \<open>data\<close>. The array \<open>data[8]\<close> is a list of bytes, of length 8 in every
  frame the program can hold (\<open>frame_ok\<close>).\<close>

record CanFrame =
  id_f :: u32
  size_f :: u8
  data_f :: "u8 list"
  is_remote_request :: bool
  is_extended :: bool

definition frame_ok :: "CanFrame \<Rightarrow> bool" where
  "frame_ok frame = (length (data_f frame) = 8)"

subsection \<open>The message types \<open>T\<close>\<close>

text \<open>The templates are instantiated with message structs \<open>T\<close> that are declared outside
  the headers at hand. The functions use three compile-time facts of \<open>T\<close>, taken here as
  parameters: the constant \<open>T::k_base_address\<close>, \<open>sizeof(T)\<close> and \<open>sizeof(T::value)\<close>.
  The object representation of \<open>T::value\<close> is a list of \<open>sizeof(T::value)\<close> bytes.\<close>

record msg_type =
  k_base_address :: u32
  sizeof_T :: nat
  sizeof_value :: nat

definition MAX_STRUCT_SIZE :: nat where
  "MAX_STRUCT_SIZE = 16320"

definition CAN_REMOTE_REQUEST_FLAG :: u32 where
  "CAN_REMOTE_REQUEST_FLAG = 0x40000000"

text \<open>\<open>CanMultiPackageFrame<T>\<close>: the member \<open>value\<close> (its bytes) and the bitset
  \<open>received\<close> of \<open>expected_index_count\<close> bits.\<close>

record CanMultiPackageFrame =
  value_buf :: "u8 list"
  received :: "bool list"

definition expected_index_count :: "msg_type \<Rightarrow> nat" where
  "expected_index_count T = sizeof_T T div 7 + (if sizeof_T T mod 7 \<noteq> 0 then 1 else 0)"

section \<open>Addressing\<close>

definition mcan_connect_msg_id_with_node_id :: "u32 \<Rightarrow> u8 \<Rightarrow> bool \<Rightarrow> u32" where
  "mcan_connect_msg_id_with_node_id uid_21_bit node_id remote =
     push_bit 8 uid_21_bit OR ucast node_id OR (if remote then CAN_REMOTE_REQUEST_FLAG else 0)"

section \<open>Memory\<close>

text \<open>\<open>std::memcpy(dst + doff, src + soff, n)\<close> on byte arrays. The copy is defined only
  when both ranges lie inside their arrays; a copy that leaves either array is undefined
  behaviour of the program, modelled as \<open>None\<close>.\<close>

definition memcpy :: "u8 list \<Rightarrow> nat \<Rightarrow> u8 list \<Rightarrow> nat \<Rightarrow> nat \<Rightarrow> u8 list option" where
  "memcpy dst doff src soff n =
     (if doff + n \<le> length dst \<and> soff + n \<le> length src
      then Some (take doff dst @ take n (drop soff src) @ drop (doff + n) dst)
      else None)"

section \<open>Segmenter: \<open>mcan_pack_send_msg\<close>\<close>

text \<open>The bus \<open>can_interface\<close> is an abstract state \<open>'b\<close> together with its virtual method
  \<open>send\<close>, which returns a \<open>Status\<close> and the bus after the call.\<close>

type_synonym 'b send_fn = "'b \<Rightarrow> CanFrame \<Rightarrow> Status \<times> 'b"

text \<open>The static assertion \<open>sizeof(T) <= MAX_STRUCT_SIZE\<close>: only such \<open>T\<close> are instantiated.\<close>

definition static_assert_size :: "msg_type \<Rightarrow> bool" where
  "static_assert_size T = (sizeof_T T \<le> MAX_STRUCT_SIZE)"

text \<open>The body of the \<open>for\<close> loop up to the call of \<open>send\<close>: the local \<open>frame\<close> as iteration
  \<open>frame_index\<close> leaves it, from the \<open>frame\<close> the previous iteration left. The size
  expression is computed in \<open>size_t\<close> and stored in the \<open>uint8_t\<close> field, which keeps it
  modulo 256; the index is stored by \<open>static_cast<uint8_t>\<close>, which keeps it modulo 256;
  the copy length \<open>frame.size - 1\<close> is converted to \<open>size_t\<close>. The \<open>int\<close> counters
  \<open>total_frames\<close> and \<open>frame_index\<close> never leave \<open>0 .. 2332\<close> under the static assertion
  and are natural numbers here (the body runs only when \<open>frame_index < total_frames\<close>).\<close>

definition pack_frame :: "msg_type \<Rightarrow> u8 list \<Rightarrow> nat \<Rightarrow> nat \<Rightarrow> CanFrame \<Rightarrow> CanFrame option" where
  "pack_frame T data_ptr total_frames frame_index frame =
     (let size' = (if frame_index = total_frames - 1
                   then word_of_int (int (sizeof_value T) - int frame_index * 7 + 1)
                   else 8) :: u8;
          data0 = (data_f frame)[0 := word_of_nat frame_index]
      in case memcpy data0 1 data_ptr (frame_index * 7) (unat ((ucast size' :: size_t) - 1)) of
           None \<Rightarrow> None
         | Some data' \<Rightarrow>
             Some (frame\<lparr>size_f := size', data_f := data',
                          is_extended := True, is_remote_request := False\<rparr>))"

function send_loop ::
  "'b send_fn \<Rightarrow> msg_type \<Rightarrow> u8 list \<Rightarrow> nat \<Rightarrow> nat \<Rightarrow> CanFrame \<Rightarrow> 'b \<Rightarrow> (Status \<times> 'b) option"
where
  "send_loop send T data_ptr total_frames frame_index frame can_interface =
     (if frame_index < total_frames then
        (case pack_frame T data_ptr total_frames frame_index frame of
           None \<Rightarrow> None
         | Some frame' \<Rightarrow>
             (case send can_interface frame' of
                (x, can_interface') \<Rightarrow>
                  if \<not> ok x then Some (x, can_interface')
                  else send_loop send T data_ptr total_frames (frame_index + 1) frame'
                         can_interface'))
      else Some (Status_OK, can_interface))"
  by pat_completeness auto
termination
  by (relation "measure (\<lambda>(send, T, data_ptr, total_frames, frame_index, frame, can_interface).
        total_frames - frame_index)") auto

declare send_loop.simps [simp del]

text \<open>\<open>struct_to_send\<close> is the byte representation of \<open>struct_to_send.value\<close>; \<open>frame0\<close> is
  the uninitialised local \<open>CanFrame frame\<close>, whose content is indeterminate.\<close>

definition mcan_pack_send_msg ::
  "'b send_fn \<Rightarrow> msg_type \<Rightarrow> CanFrame \<Rightarrow> 'b \<Rightarrow> u8 list \<Rightarrow> int \<Rightarrow> (Status \<times> 'b) option"
where
  "mcan_pack_send_msg send T frame0 can_interface struct_to_send node_id =
     (let frame = frame0\<lparr>id_f :=
            mcan_connect_msg_id_with_node_id (k_base_address T) (word_of_int node_id) False\<rparr>
      in if sizeof_value T \<le> 8 then
           (case memcpy (data_f frame) 0 struct_to_send 0 (sizeof_value T) of
              None \<Rightarrow> None
            | Some data' \<Rightarrow>
                Some (send can_interface
                  (frame\<lparr>size_f := word_of_nat (sizeof_value T), data_f := data',
                          is_extended := True, is_remote_request := False\<rparr>)))
         else
           (let total_frames = sizeof_T T div 7 + (if sizeof_T T mod 7 \<noteq> 0 then 1 else 0)
            in send_loop send T struct_to_send total_frames 0 frame can_interface))"

section \<open>Reassembler: \<open>mcan_unpack_msg\<close>\<close>

text \<open>The local \<open>size_t data_size = frame.size - 1\<close>: the \<open>uint8_t\<close> size is promoted, one is
  subtracted, and the result is converted to \<open>size_t\<close>, so size 0 gives the largest \<open>size_t\<close>.\<close>

definition data_size :: "CanFrame \<Rightarrow> size_t" where
  "data_size frame = ucast (size_f frame) - 1"

definition mcan_unpack_msg ::
  "msg_type \<Rightarrow> CanFrame \<Rightarrow> CanMultiPackageFrame \<Rightarrow> (Status \<times> CanMultiPackageFrame) option"
where
  "mcan_unpack_msg T frame struct_to_receive =
     (if sizeof_value T \<le> 8 then
        (if unat (size_f frame) \<noteq> sizeof_value T
         then Some (Status_Invalid ''Received CAN frame size does not match expected size'',
                    struct_to_receive)
         else (case memcpy (value_buf struct_to_receive) 0 (data_f frame) 0 (sizeof_value T) of
                 None \<Rightarrow> None
               | Some value' \<Rightarrow> Some (Status_OK, struct_to_receive\<lparr>value_buf := value'\<rparr>)))
      else
        (let index = unat (data_f frame ! 0)
         in if index \<ge> expected_index_count T
            then Some (Status_Invalid ''Received CAN frame index out of bounds'',
                       struct_to_receive
                         \<lparr>received := replicate (length (received struct_to_receive)) False,
                          value_buf := replicate (length (value_buf struct_to_receive)) 0\<rparr>)
            else
              (case memcpy (value_buf struct_to_receive) (index * 7) (data_f frame) 1
                      (unat (data_size frame)) of
                 None \<Rightarrow> None
               | Some value' \<Rightarrow>
                   (let received' = (received struct_to_receive)[index := True]
                    in Some (if list_all (\<lambda>b. b) received'
                             then Status_OK
                             else Status_Cancelled
                               ''Waiting for more CAN frames to complete the message'',
                             struct_to_receive\<lparr>value_buf := value', received := received'\<rparr>)))))"

section \<open>Drivers\<close>

text \<open>A bus that records every frame handed to \<open>send\<close>, on top of any bus.\<close>

definition recording :: "'b send_fn \<Rightarrow> ('b \<times> CanFrame list) send_fn" where
  "recording send = (\<lambda>(b, log) frame. case send b frame of (x, b') \<Rightarrow> (x, (b', log @ [frame])))"

text \<open>A bus on which every send succeeds.\<close>

definition accepting :: "unit send_fn" where
  "accepting = (\<lambda>b frame. (Status_OK, b))"

text \<open>The frames \<open>mcan_pack_send_msg\<close> hands to \<open>send\<close> when every send succeeds.\<close>

definition segments :: "msg_type \<Rightarrow> CanFrame \<Rightarrow> u8 list \<Rightarrow> int \<Rightarrow> CanFrame list" where
  "segments T frame0 struct_to_send node_id =
     (case mcan_pack_send_msg (recording accepting) T frame0 ((), []) struct_to_send node_id of
        None \<Rightarrow> []
      | Some (x, (b, log)) \<Rightarrow> log)"

text \<open>The bus after a list of frames was sent, and the status it returns for frame \<open>k\<close> of
  a list when the frames before it were sent first.\<close>

definition bus_after :: "'b send_fn \<Rightarrow> 'b \<Rightarrow> CanFrame list \<Rightarrow> 'b" where
  "bus_after send b frames = foldl (\<lambda>b frame. snd (send b frame)) b frames"

definition reply :: "'b send_fn \<Rightarrow> 'b \<Rightarrow> CanFrame list \<Rightarrow> nat \<Rightarrow> Status" where
  "reply send b frames k = fst (send (bus_after send b (take k frames)) (frames ! k))"

text \<open>A default-constructed \<open>CanMultiPackageFrame<T>\<close>: \<open>value\<close> zeroed, no bit set.\<close>

definition fresh :: "msg_type \<Rightarrow> CanMultiPackageFrame" where
  "fresh T = \<lparr>value_buf = replicate (sizeof_value T) 0,
              received = replicate (expected_index_count T) False\<rparr>"

text \<open>The receive path calls \<open>mcan_unpack_msg\<close> once per incoming frame, on the same buffer;
  the statuses of the calls are collected in order.\<close>

fun unpack_all ::
  "msg_type \<Rightarrow> CanFrame list \<Rightarrow> CanMultiPackageFrame \<Rightarrow> (Status list \<times> CanMultiPackageFrame) option"
where
  "unpack_all T [] s = Some ([], s)"
| "unpack_all T (frame # frames) s =
     (case mcan_unpack_msg T frame s of
        None \<Rightarrow> None
      | Some (x, s') \<Rightarrow>
          (case unpack_all T frames s' of
             None \<Rightarrow> None
           | Some (xs, s'') \<Rightarrow> Some (x # xs, s'')))"

section \<open>Notions used in the statements and proofs\<close>

text \<open>The status \<open>mcan_unpack_msg\<close> returns while segments are missing.\<close>

definition waiting :: Status where
  "waiting = Status_Cancelled ''Waiting for more CAN frames to complete the message''"

text \<open>The id \<open>mcan_pack_send_msg\<close> gives every frame; the \<open>int node_id\<close> is converted to the
  \<open>uint8_t\<close> parameter.\<close>

definition msg_id :: "msg_type \<Rightarrow> int \<Rightarrow> u32" where
  "msg_id T node_id =
     mcan_connect_msg_id_with_node_id (k_base_address T) (word_of_int node_id) False"

text \<open>A message type sent in several frames: \<open>value\<close> has more than 8 bytes, it is the only
  non-static member of \<open>T\<close> (so \<open>sizeof(T) = sizeof(T::value)\<close>, the one record size the
  specification speaks of), and the static assertion accepts \<open>T\<close>.\<close>

definition multi_segment :: "msg_type \<Rightarrow> bool" where
  "multi_segment T = (8 < sizeof_value T \<and> sizeof_T T = sizeof_value T \<and> static_assert_size T)"

text \<open>The number of payload bytes of segment \<open>k\<close>.\<close>

definition seg_len :: "msg_type \<Rightarrow> nat \<Rightarrow> nat" where
  "seg_len T k = min 7 (sizeof_value T - k * 7)"

text \<open>\<open>frame\<close> is segment \<open>k\<close> of the value \<open>v\<close> under id \<open>i\<close>.\<close>

definition is_segment :: "msg_type \<Rightarrow> u8 list \<Rightarrow> u32 \<Rightarrow> nat \<Rightarrow> CanFrame \<Rightarrow> bool" where
  "is_segment T v i k frame =
     (id_f frame = i \<and> size_f frame = word_of_nat (seg_len T k + 1)
      \<and> length (data_f frame) = 8 \<and> data_f frame ! 0 = word_of_nat k
      \<and> take (seg_len T k) (drop 1 (data_f frame)) = take (seg_len T k) (drop (k * 7) v)
      \<and> is_extended frame \<and> \<not> is_remote_request frame)"

text \<open>The reassembly buffer \<open>s\<close> holds exactly the segments \<open>S\<close> of the value \<open>v\<close>.\<close>

definition holds :: "msg_type \<Rightarrow> u8 list \<Rightarrow> nat set \<Rightarrow> CanMultiPackageFrame \<Rightarrow> bool" where
  "holds T v S s =
     (length (value_buf s) = sizeof_value T
      \<and> length (received s) = expected_index_count T
      \<and> (\<forall>i < expected_index_count T. received s ! i = (i \<in> S))
      \<and> (\<forall>i \<in> S. \<forall>j. i * 7 \<le> j \<and> j < i * 7 + seg_len T i \<longrightarrow> value_buf s ! j = v ! j))"

text \<open>Sending a list of frames in order, stopping at the first send that fails; and the
  frames the loop of \<open>mcan_pack_send_msg\<close> builds from iteration \<open>frame_index\<close> on.\<close>

fun send_in_order :: "'b send_fn \<Rightarrow> 'b \<Rightarrow> CanFrame list \<Rightarrow> Status \<times> 'b" where
  "send_in_order send b [] = (Status_OK, b)"
| "send_in_order send b (frame # frames) =
     (case send b frame of (x, b') \<Rightarrow> if \<not> ok x then (x, b') else send_in_order send b' frames)"

function frames_from :: "msg_type \<Rightarrow> u8 list \<Rightarrow> nat \<Rightarrow> nat \<Rightarrow> CanFrame \<Rightarrow> CanFrame list option" where
  "frames_from T data_ptr total_frames frame_index frame =
     (if frame_index < total_frames then
        (case pack_frame T data_ptr total_frames frame_index frame of
           None \<Rightarrow> None
         | Some frame' \<Rightarrow>
             (case frames_from T data_ptr total_frames (frame_index + 1) frame' of
                None \<Rightarrow> None
              | Some frames \<Rightarrow> Some (frame' # frames)))
      else Some [])"
  by pat_completeness auto
termination
  by (relation "measure (\<lambda>(T, data_ptr, total_frames, frame_index, frame).
        total_frames - frame_index)") auto

declare frames_from.simps [simp del]

section \<open>Example inputs\<close>

text \<open>A message type of 20 bytes with a value, some content of the uninitialised frame, a
  message type of 1793 bytes with the all-zero value, and a bus whose second send fails.\<close>

definition T20 :: msg_type where
  "T20 = \<lparr>k_base_address = 0x1234, sizeof_T = 20, sizeof_value = 20\<rparr>"

definition V20 :: "u8 list" where
  "V20 = [100, 101, 102, 103, 104, 105, 106, 107, 108, 109,
          110, 111, 112, 113, 114, 115, 116, 117, 118, 119]"

definition F9 :: CanFrame where
  "F9 = \<lparr>id_f = 0, size_f = 0, data_f = [9, 9, 9, 9, 9, 9, 9, 9],
         is_remote_request = True, is_extended = False\<rparr>"

definition T1793 :: msg_type where
  "T1793 = \<lparr>k_base_address = 0x1234, sizeof_T = 1793, sizeof_value = 1793\<rparr>"

definition V1793 :: "u8 list" where
  "V1793 = replicate 1793 0"

definition failing_second :: "nat send_fn" where
  "failing_second = (\<lambda>n frame. if n = 1
     then (\<lparr>status_code = IOError, message = ''IOError|bus off''\<rparr>, n)
     else (Status_OK, n + 1))"

section \<open>The addressing codec\<close>

lemma bit_lt_21:
  assumes b: "(b::u32) < 2 ^ 21" and k: "bit b k"
  shows "k < 21"
proof (rule ccontr)
  assume n: "\<not> k < 21"
  from b have ub: "unat b < 2 ^ 21" by (simp add: word_less_nat_alt)
  have "(2::nat) ^ 21 \<le> 2 ^ k" by (rule power_increasing) (use n in simp_all)
  with ub have "unat b div 2 ^ k = 0" by simp
  then have "\<not> bit (unat b) k" by (simp add: bit_nat_def)
  with k show False by (simp add: bit_unsigned_iff)
qed

lemma id_bits_lt_29:
  assumes b: "(b::u32) < 2 ^ 21" and k: "bit (push_bit 8 b OR ucast (n::u8)) k"
  shows "k < 29"
proof -
  from k have "bit (push_bit 8 b) k \<or> bit (ucast n :: u32) k"
    by (simp add: bit_or_iff)
  then show ?thesis
  proof
    assume "bit (push_bit 8 b) k"
    then have "8 \<le> k" and "bit b (k - 8)"
      by (simp_all add: bit_push_bit_iff)
    with b have "k - 8 < 21" by (blast dest: bit_lt_21)
    with \<open>8 \<le> k\<close> show ?thesis by simp
  next
    assume "bit (ucast n :: u32) k"
    then have "bit n k" by (simp add: bit_ucast_iff)
    then have "k < 8" using bit_imp_le_length [of n k] by simp
    then show ?thesis by simp
  qed
qed

lemma take_bit_29_id:
  assumes b: "(b::u32) < 2 ^ 21"
  shows "take_bit 29 (push_bit 8 b OR ucast (n::u8)) = push_bit 8 b OR ucast n"
proof (rule bit_word_eqI)
  fix k
  have "bit (push_bit 8 b OR ucast n) k \<Longrightarrow> k < 29"
    using b by (rule id_bits_lt_29)
  then show "bit (take_bit 29 (push_bit 8 b OR ucast n)) k = bit (push_bit 8 b OR ucast n) k"
    unfolding bit_take_bit_iff by blast
qed

lemma id_bit_30_clear:
  assumes b: "(b::u32) < 2 ^ 21"
  shows "\<not> bit (push_bit 8 b OR ucast (n::u8)) 30"
proof
  assume "bit (push_bit 8 b OR ucast n) 30"
  with b have "(30::nat) < 29" by (rule id_bits_lt_29)
  then show False by simp
qed

lemma take_bit_29_flag: "take_bit 29 (x OR CAN_REMOTE_REQUEST_FLAG) = take_bit 29 x"
  by (rule bit_word_eqI) (auto simp add: bit_simps CAN_REMOTE_REQUEST_FLAG_def)

text \<open>C4. For a base address of at most 21 bits and any 8-bit node id, the composed id
  without the remote flag is \<open>(base_address << 8) | node_id\<close>; with the remote flag it is
  the same value with \<open>0x40000000\<close> (bit 30) set in addition, bit 30 is clear without the
  flag, and the low 29 bits of the flagged id are the unflagged id. In particular
  base address \<open>0x1234\<close> and node id 5 give \<open>(0x1234 << 8) | 5\<close>.\<close>

theorem compose_id:
  assumes "base_address < 2 ^ 21"
  shows "mcan_connect_msg_id_with_node_id base_address node_id False
           = push_bit 8 base_address OR ucast node_id
       \<and> mcan_connect_msg_id_with_node_id base_address node_id True
           = mcan_connect_msg_id_with_node_id base_address node_id False OR 0x40000000
       \<and> bit (mcan_connect_msg_id_with_node_id base_address node_id True) 30
       \<and> \<not> bit (mcan_connect_msg_id_with_node_id base_address node_id False) 30
       \<and> take_bit 29 (mcan_connect_msg_id_with_node_id base_address node_id True)
           = mcan_connect_msg_id_with_node_id base_address node_id False
       \<and> mcan_connect_msg_id_with_node_id 0x1234 5 False = push_bit 8 0x1234 OR 5"
proof -
  let ?plain = "push_bit 8 base_address OR ucast node_id"
  have plain: "mcan_connect_msg_id_with_node_id base_address node_id False = ?plain"
    by (simp add: mcan_connect_msg_id_with_node_id_def)
  have remote: "mcan_connect_msg_id_with_node_id base_address node_id True
                  = ?plain OR CAN_REMOTE_REQUEST_FLAG"
    by (simp add: mcan_connect_msg_id_with_node_id_def or.assoc)
  have flag: "bit (?plain OR CAN_REMOTE_REQUEST_FLAG) 30"
    by (simp add: bit_or_iff CAN_REMOTE_REQUEST_FLAG_def)
  have noflag: "\<not> bit ?plain 30"
    using assms by (rule id_bit_30_clear)
  have low: "take_bit 29 (?plain OR CAN_REMOTE_REQUEST_FLAG) = ?plain"
    using take_bit_29_id [OF assms] by (simp only: take_bit_29_flag)
  have ex: "mcan_connect_msg_id_with_node_id 0x1234 5 False = push_bit 8 0x1234 OR 5"
    by (simp add: mcan_connect_msg_id_with_node_id_def)
  show ?thesis
    unfolding plain remote using flag noflag low ex
    by (simp add: CAN_REMOTE_REQUEST_FLAG_def)
qed

theorem compose_id_witness:
  "(0x1234 :: u32) < 2 ^ 21
   \<and> mcan_connect_msg_id_with_node_id 0x1234 5 False = 0x123405
   \<and> mcan_connect_msg_id_with_node_id 0x1234 5 True = 0x40123405
   \<and> take_bit 29 (mcan_connect_msg_id_with_node_id 0x1234 5 True) = 0x123405"
proof -
  have h: "(0x1234 :: u32) < 2 ^ 21" by simp
  show ?thesis using h compose_id [OF h, of 5]
    by (simp add: mcan_connect_msg_id_with_node_id_def CAN_REMOTE_REQUEST_FLAG_def)
qed

section \<open>Messages of one frame\<close>

lemma memcpy_whole:
  "n \<le> length src \<Longrightarrow> n \<le> length dst \<Longrightarrow>
   memcpy dst 0 src 0 n = Some (take n src @ drop n dst)"
  by (simp add: memcpy_def)

text \<open>C7. For a message type whose value fits one frame (\<open>sizeof(T::value) \<le> 8\<close>): a frame
  whose size differs from \<open>sizeof(T::value)\<close> is answered with an Invalid status and the
  buffer (value and received bits) is returned unchanged; a frame of exactly that size has
  its first \<open>size\<close> data bytes copied into the value and is answered with OK at once.\<close>

theorem unpack_single:
  assumes "sizeof_value T \<le> 8" and "length (value_buf s) = sizeof_value T" and "frame_ok frame"
  shows "(unat (size_f frame) \<noteq> sizeof_value T \<longrightarrow>
            mcan_unpack_msg T frame s =
              Some (Status_Invalid ''Received CAN frame size does not match expected size'', s))
       \<and> (unat (size_f frame) = sizeof_value T \<longrightarrow>
            mcan_unpack_msg T frame s =
              Some (Status_OK, s\<lparr>value_buf := take (unat (size_f frame)) (data_f frame)\<rparr>))"
  using assms by (simp add: mcan_unpack_msg_def frame_ok_def memcpy_whole)

theorem unpack_single_witness:
  "mcan_unpack_msg \<lparr>k_base_address = 0x1234, sizeof_T = 4, sizeof_value = 4\<rparr>
     \<lparr>id_f = 0x123405, size_f = 4, data_f = [1, 2, 3, 4, 9, 9, 9, 9],
      is_remote_request = False, is_extended = True\<rparr>
     \<lparr>value_buf = [0, 0, 0, 0], received = [False]\<rparr>
   = Some (Status_OK, \<lparr>value_buf = [1, 2, 3, 4], received = [False]\<rparr>)
   \<and> mcan_unpack_msg \<lparr>k_base_address = 0x1234, sizeof_T = 4, sizeof_value = 4\<rparr>
     \<lparr>id_f = 0x123405, size_f = 3, data_f = [1, 2, 3, 4, 9, 9, 9, 9],
      is_remote_request = False, is_extended = True\<rparr>
     \<lparr>value_buf = [7, 7, 7, 7], received = [False]\<rparr>
   = Some (Status_Invalid ''Received CAN frame size does not match expected size'',
           \<lparr>value_buf = [7, 7, 7, 7], received = [False]\<rparr>)"
  using unpack_single [of "\<lparr>k_base_address = 0x1234, sizeof_T = 4, sizeof_value = 4\<rparr>"
      "\<lparr>value_buf = [0, 0, 0, 0], received = [False]\<rparr>"
      "\<lparr>id_f = 0x123405, size_f = 4, data_f = [1, 2, 3, 4, 9, 9, 9, 9],
      is_remote_request = False, is_extended = True\<rparr>"]
    unpack_single [of "\<lparr>k_base_address = 0x1234, sizeof_T = 4, sizeof_value = 4\<rparr>"
      "\<lparr>value_buf = [7, 7, 7, 7], received = [False]\<rparr>"
      "\<lparr>id_f = 0x123405, size_f = 3, data_f = [1, 2, 3, 4, 9, 9, 9, 9],
      is_remote_request = False, is_extended = True\<rparr>"]
  by (simp add: frame_ok_def)

text \<open>C6. For a message type whose value fits one frame (\<open>sizeof(T::value) \<le> 8\<close>),
  \<open>mcan_pack_send_msg\<close> calls \<open>send\<close> exactly once, on the frame whose id is the composed
  id without remote flag, whose size is \<open>sizeof(T::value)\<close>, whose first \<open>size\<close> data bytes
  are the bytes of the value and whose remote-request flag is false, and it returns what
  that call of \<open>send\<close> returned.\<close>

theorem pack_single:
  assumes "sizeof_value T \<le> 8" and "length struct_to_send = sizeof_value T" and "frame_ok frame0"
  shows "mcan_pack_send_msg send T frame0 can_interface struct_to_send node_id =
           Some (send can_interface
             \<lparr>id_f = mcan_connect_msg_id_with_node_id (k_base_address T) (word_of_int node_id) False,
              size_f = word_of_nat (sizeof_value T),
              data_f = struct_to_send @ drop (sizeof_value T) (data_f frame0),
              is_remote_request = False, is_extended = True\<rparr>)
       \<and> unat (word_of_nat (sizeof_value T) :: u8) = sizeof_value T"
proof -
  have "unat (word_of_nat (sizeof_value T) :: u8) = sizeof_value T"
    using assms(1) by (simp add: unat_of_nat)
  then show ?thesis
    using assms by (cases frame0) (simp add: mcan_pack_send_msg_def frame_ok_def memcpy_whole)
qed

theorem pack_single_witness:
  "mcan_pack_send_msg (recording accepting) \<lparr>k_base_address = 0x1234, sizeof_T = 4, sizeof_value = 4\<rparr>
     \<lparr>id_f = 0, size_f = 0, data_f = [9, 9, 9, 9, 9, 9, 9, 9],
      is_remote_request = True, is_extended = False\<rparr> ((), []) [1, 2, 3, 4] 5
   = Some (Status_OK, ((), [\<lparr>id_f = 0x123405, size_f = 4, data_f = [1, 2, 3, 4, 9, 9, 9, 9],
      is_remote_request = False, is_extended = True\<rparr>]))"
  using pack_single [of "\<lparr>k_base_address = 0x1234, sizeof_T = 4, sizeof_value = 4\<rparr>"
      "[1, 2, 3, 4]" "\<lparr>id_f = 0, size_f = 0, data_f = [9, 9, 9, 9, 9, 9, 9, 9],
      is_remote_request = True, is_extended = False\<rparr>" "recording accepting" "((), [])" 5]
  by (simp add: frame_ok_def recording_def accepting_def mcan_connect_msg_id_with_node_id_def)

section \<open>Messages of several frames: the segmenter\<close>

lemma count_bounds:
  assumes "multi_segment T"
  shows "(expected_index_count T - 1) * 7 < sizeof_value T"
    and "sizeof_value T \<le> expected_index_count T * 7"
    and "2 \<le> expected_index_count T"
  using assms by (auto simp add: multi_segment_def expected_index_count_def) arith+

lemma seg_len_inner:
  assumes "multi_segment T" and "k < expected_index_count T - 1"
  shows "seg_len T k = 7"
proof -
  from assms(2) have "(k + 1) * 7 \<le> (expected_index_count T - 1) * 7" by simp
  with count_bounds(1) [OF assms(1)] show ?thesis by (simp add: seg_len_def)
qed

lemma seg_len_last:
  assumes "multi_segment T" and "k = expected_index_count T - 1"
  shows "seg_len T k = sizeof_value T - k * 7" and "k * 7 < sizeof_value T"
  using count_bounds [OF assms(1)] assms(2) by (simp_all add: seg_len_def)

lemma seg_len_bounds:
  assumes "multi_segment T" and "k < expected_index_count T"
  shows "1 \<le> seg_len T k" and "seg_len T k \<le> 7" and "k * 7 + seg_len T k \<le> sizeof_value T"
proof -
  from assms(2) have "k * 7 \<le> (expected_index_count T - 1) * 7" by simp
  with count_bounds(1) [OF assms(1)] have "k * 7 < sizeof_value T" by simp
  then show "1 \<le> seg_len T k" and "seg_len T k \<le> 7" and "k * 7 + seg_len T k \<le> sizeof_value T"
    by (simp_all add: seg_len_def)
qed

lemma unat_ucast_u8: "unat (ucast (w::u8) :: size_t) = unat w"
proof -
  have "unat w < 2 ^ LENGTH(8)" by (rule unsigned_less)
  then have "unat w < 2 ^ 64" by simp
  then have "take_bit 64 (unat w) = unat w" by (rule take_bit_nat_eq_self)
  then show ?thesis by (simp only: unsigned_ucast_eq) simp
qed

lemma data_size_pos:
  assumes "unat (w::u8) \<noteq> 0"
  shows "unat ((ucast w :: size_t) - 1) = unat w - 1"
proof -
  have "unat (ucast w :: size_t) \<noteq> 0" using assms by (simp add: unat_ucast_u8)
  then have "(ucast w :: size_t) \<noteq> 0" by (metis unat_0)
  then have "unat ((ucast w :: size_t) - 1) = unat (ucast w :: size_t) - 1"
    by (rule unat_minus_one)
  then show ?thesis by (simp only: unat_ucast_u8)
qed

lemma unat_small: "n < 256 \<Longrightarrow> unat (word_of_nat n :: u8) = n"
  by (simp add: unat_of_nat)

lemma copy_len:
  assumes "n \<le> 7"
  shows "unat ((ucast (word_of_nat (n + 1) :: u8) :: size_t) - 1) = n"
proof -
  have "unat (word_of_nat (n + 1) :: u8) = n + 1"
    using assms by (intro unat_small) simp
  then show ?thesis using data_size_pos [of "word_of_nat (n + 1)"] by simp
qed

lemma size_expr:
  assumes "multi_segment T" and "k < expected_index_count T"
  shows "(if k = expected_index_count T - 1
          then word_of_int (int (sizeof_value T) - int k * 7 + 1) else 8)
         = (word_of_nat (seg_len T k + 1) :: u8)"
proof (cases "k = expected_index_count T - 1")
  case True
  have eq: "int (sizeof_value T) - int k * 7 + 1 = int (seg_len T k + 1)"
    using seg_len_last [OF assms(1) True] by simp
  have "(word_of_int (int (sizeof_value T) - int k * 7 + 1) :: u8)
          = word_of_int (int (seg_len T k + 1))"
    by (simp only: eq)
  also have "\<dots> = word_of_nat (seg_len T k + 1)"
    by (rule of_int_of_nat_eq)
  finally show ?thesis using True by simp
next
  case False
  with assms(2) have "k < expected_index_count T - 1" by simp
  from seg_len_inner [OF assms(1) this] False show ?thesis by simp
qed

lemma pack_frame_segment:
  assumes T: "multi_segment T" and k: "k < expected_index_count T"
    and v: "length v = sizeof_value T" and f: "frame_ok frame"
  shows "\<exists>frame'. pack_frame T v (expected_index_count T) k frame = Some frame'
           \<and> is_segment T v (id_f frame) k frame'"
proof -
  let ?n = "seg_len T k"
  from seg_len_bounds [OF T k] have n: "1 \<le> ?n" "?n \<le> 7" "k * 7 + ?n \<le> sizeof_value T" .
  let ?data0 = "(data_f frame)[0 := word_of_nat k]"
  let ?data' = "take 1 ?data0 @ take ?n (drop (k * 7) v) @ drop (1 + ?n) ?data0"
  have len0: "length ?data0 = 8" using f by (simp add: frame_ok_def)
  have cp: "memcpy ?data0 1 v (k * 7) ?n = Some ?data'"
    using n v len0 by (simp add: memcpy_def)
  have pf: "pack_frame T v (expected_index_count T) k frame =
      Some (frame\<lparr>size_f := word_of_nat (?n + 1), data_f := ?data',
                    is_extended := True, is_remote_request := False\<rparr>)"
    unfolding pack_frame_def size_expr [OF T k] Let_def copy_len [OF n(2)] cp by simp
  have hd: "take 1 ?data0 = [word_of_nat k]"
    using len0 by (cases "data_f frame") simp_all
  have "length (take ?n (drop (k * 7) v)) = ?n" using n v by simp
  then have tk: "take ?n (drop 1 ?data') = take ?n (drop (k * 7) v)"
    unfolding hd by simp
  have ln: "length ?data' = 8" using n v len0 by simp
  have "?data' ! 0 = word_of_nat k" unfolding hd by simp
  with tk ln have "is_segment T v (id_f frame) k
      (frame\<lparr>size_f := word_of_nat (?n + 1), data_f := ?data',
                    is_extended := True, is_remote_request := False\<rparr>)"
    by (simp add: is_segment_def)
  with pf show ?thesis by blast
qed

lemma send_loop_frames:
  "frames_from T d N k frame = Some fs \<Longrightarrow>
   send_loop send T d N k frame c = Some (send_in_order send c fs)"
proof (induction "N - k" arbitrary: k frame c fs)
  case 0
  then have "\<not> k < N" by simp
  with "0.prems" show ?case
    by (simp add: frames_from.simps [of T d N k] send_loop.simps [of send T d N k])
next
  case (Suc m)
  then have k: "k < N" by simp
  from Suc.prems k obtain frame' fs' where
    pf: "pack_frame T d N k frame = Some frame'" and
    ff: "frames_from T d N (k + 1) frame' = Some fs'" and fs: "fs = frame' # fs'"
    by (auto simp add: frames_from.simps [of T d N k] split: option.splits)
  from Suc.hyps(2) have m: "m = N - (k + 1)" by simp
  have ih: "\<And>c'. send_loop send T d N (Suc k) frame' c' = Some (send_in_order send c' fs')"
    using Suc.hyps(1) [OF m ff] by simp
  show ?case
    using k pf by (simp add: send_loop.simps [of send T d N k] fs ih split: prod.splits)
qed

lemma frames_from_segments:
  assumes T: "multi_segment T" and v: "length v = sizeof_value T"
  shows "k \<le> expected_index_count T \<Longrightarrow> frame_ok frame \<Longrightarrow>
    \<exists>fs. frames_from T v (expected_index_count T) k frame = Some fs
       \<and> length fs = expected_index_count T - k
       \<and> (\<forall>j < expected_index_count T - k. is_segment T v (id_f frame) (k + j) (fs ! j))"
proof (induction "expected_index_count T - k" arbitrary: k frame)
  case 0
  then show ?case by (simp add: frames_from.simps [of T v _ k])
next
  case (Suc m)
  then have k: "k < expected_index_count T" by simp
  from pack_frame_segment [OF T k v Suc.prems(2)] obtain frame' where
    pf: "pack_frame T v (expected_index_count T) k frame = Some frame'" and
    sg: "is_segment T v (id_f frame) k frame'" by blast
  from sg have ok': "frame_ok frame'" and id': "id_f frame' = id_f frame"
    by (simp_all add: is_segment_def frame_ok_def)
  from Suc.hyps(2) have m: "m = expected_index_count T - (k + 1)" by simp
  from k have k1: "k + 1 \<le> expected_index_count T" by simp
  from Suc.hyps(1) [OF m k1 ok'] obtain fs where
    ff: "frames_from T v (expected_index_count T) (k + 1) frame' = Some fs" and
    ln: "length fs = expected_index_count T - (k + 1)" and
    al: "\<forall>j < expected_index_count T - (k + 1). is_segment T v (id_f frame') (k + 1 + j) (fs ! j)"
    by blast
  have res: "frames_from T v (expected_index_count T) k frame = Some (frame' # fs)"
    using k pf ff by (simp add: frames_from.simps [of T v _ k])
  have "is_segment T v (id_f frame) (k + j) ((frame' # fs) ! j)"
    if j: "j < expected_index_count T - k" for j
  proof (cases j)
    case 0
    with sg show ?thesis by simp
  next
    case (Suc j')
    with j have "j' < expected_index_count T - (k + 1)" by simp
    with al have "is_segment T v (id_f frame') (k + 1 + j') (fs ! j')" by blast
    with Suc id' show ?thesis by simp
  qed
  with res ln k show ?case by simp
qed

lemma send_in_order_accepting:
  "send_in_order (recording accepting) ((), log) fs = (Status_OK, ((), log @ fs))"
  by (induction fs arbitrary: log) (simp_all add: recording_def accepting_def ok_def Status_OK_def)

lemma pack_multi_loop:
  assumes "8 < sizeof_value T"
  shows "mcan_pack_send_msg send T frame0 c v node_id =
           send_loop send T v (expected_index_count T) 0 (frame0\<lparr>id_f := msg_id T node_id\<rparr>) c"
  using assms by (simp add: mcan_pack_send_msg_def expected_index_count_def msg_id_def)

lemma pack_multi_frames:
  assumes T: "multi_segment T" and v: "length v = sizeof_value T" and f: "frame_ok frame0"
  obtains fs where
    "\<And>send c. mcan_pack_send_msg send T frame0 c v node_id = Some (send_in_order send c fs)"
    "segments T frame0 v node_id = fs"
    "length fs = expected_index_count T"
    "\<And>k. k < expected_index_count T \<Longrightarrow> is_segment T v (msg_id T node_id) k (fs ! k)"
proof -
  let ?frame = "frame0\<lparr>id_f := msg_id T node_id\<rparr>"
  have f': "frame_ok ?frame" using f by (simp add: frame_ok_def)
  from frames_from_segments [OF T v _ f', of 0] obtain fs where
    ff: "frames_from T v (expected_index_count T) 0 ?frame = Some fs" and
    ln: "length fs = expected_index_count T" and
    al: "\<forall>j < expected_index_count T. is_segment T v (msg_id T node_id) j (fs ! j)"
    by auto
  from T have big: "8 < sizeof_value T" by (simp add: multi_segment_def)
  have run: "mcan_pack_send_msg send T frame0 c v node_id = Some (send_in_order send c fs)"
    for send :: "'x send_fn" and c
    unfolding pack_multi_loop [OF big] by (rule send_loop_frames [OF ff])
  have "segments T frame0 v node_id = fs"
    by (simp add: segments_def run send_in_order_accepting)
  with run ln al show ?thesis by (intro that) auto
qed


lemma segments_run:
  assumes "multi_segment T" and "length v = sizeof_value T" and "frame_ok frame0"
  shows "mcan_pack_send_msg send T frame0 c v node_id =
           Some (send_in_order send c (segments T frame0 v node_id))"
  using pack_multi_frames [OF assms, of node_id] by metis

lemma segments_length:
  assumes "multi_segment T" and "length v = sizeof_value T" and "frame_ok frame0"
  shows "length (segments T frame0 v node_id) = expected_index_count T"
  using pack_multi_frames [OF assms, of node_id] by metis

lemma segments_nth:
  assumes "multi_segment T" and "length v = sizeof_value T" and "frame_ok frame0"
    and "k < expected_index_count T"
  shows "is_segment T v (msg_id T node_id) k (segments T frame0 v node_id ! k)"
  using pack_multi_frames [OF assms(1-3), of node_id] assms(4) by metis

section \<open>Messages of several frames: the reassembler\<close>

lemma nth_write:
  assumes "length w = n" and "off + n \<le> length xs" and "j < length xs"
  shows "(take off xs @ w @ drop (off + n) xs) ! j =
           (if off \<le> j \<and> j < off + n then w ! (j - off) else xs ! j)"
  using assms by (auto simp add: nth_append)

lemma list_all_nth: "list_all (\<lambda>b. b) xs = (\<forall>i < length xs. xs ! i)"
  by (simp add: list_all_length)

lemma unpack_segment:
  assumes T: "multi_segment T" and small: "expected_index_count T \<le> 256"
    and v: "length v = sizeof_value T" and k: "k < expected_index_count T"
    and fr: "is_segment T v i k frame" and h: "holds T v S s"
  shows "\<exists>s'. mcan_unpack_msg T frame s =
            Some (if {..<expected_index_count T} \<subseteq> insert k S then Status_OK
                  else Status_Cancelled ''Waiting for more CAN frames to complete the message'', s')
          \<and> holds T v (insert k S) s'"
proof -
  let ?N = "expected_index_count T"
  let ?n = "seg_len T k"
  from seg_len_bounds [OF T k] have n: "1 \<le> ?n" "?n \<le> 7" "k * 7 + ?n \<le> sizeof_value T" .
  from T have big: "\<not> sizeof_value T \<le> 8" by (simp add: multi_segment_def)
  from h have lv: "length (value_buf s) = sizeof_value T" and lr: "length (received s) = ?N"
    and rc: "\<And>i. i < ?N \<Longrightarrow> received s ! i = (i \<in> S)"
    and vl: "\<And>i j. i \<in> S \<Longrightarrow> i * 7 \<le> j \<Longrightarrow> j < i * 7 + seg_len T i \<Longrightarrow> value_buf s ! j = v ! j"
    by (simp_all add: holds_def)
  from fr have sz: "size_f frame = word_of_nat (?n + 1)" and ld: "length (data_f frame) = 8"
    and d0: "data_f frame ! 0 = word_of_nat k"
    and pl: "take ?n (drop 1 (data_f frame)) = take ?n (drop (k * 7) v)"
    by (simp_all add: is_segment_def)
  from k small have "k < 256" by simp
  then have idx: "unat (data_f frame ! 0) = k" unfolding d0 by (rule unat_small)
  have ds: "unat (data_size frame) = ?n"
    unfolding data_size_def sz by (rule copy_len [OF n(2)])
  let ?w = "take ?n (drop (k * 7) v)"
  let ?value' = "take (k * 7) (value_buf s) @ ?w @ drop (k * 7 + ?n) (value_buf s)"
  let ?received' = "(received s)[k := True]"
  let ?s' = "s\<lparr>value_buf := ?value', received := ?received'\<rparr>"
  have cp: "memcpy (value_buf s) (k * 7) (data_f frame) (Suc 0) ?n = Some ?value'"
    using n lv ld pl by (simp add: memcpy_def)
  have all: "list_all (\<lambda>b. b) ?received' = ({..<?N} \<subseteq> insert k S)"
  proof -
    have "list_all (\<lambda>b. b) ?received' = (\<forall>i < ?N. ?received' ! i)"
      by (simp add: list_all_nth lr)
    also have "\<dots> = (\<forall>i < ?N. i = k \<or> i \<in> S)"
    proof -
      have "?received' ! i = (i = k \<or> i \<in> S)" if "i < ?N" for i
        using that lr rc [OF that] by (cases "i = k") simp_all
      then show ?thesis by simp
    qed
    also have "\<dots> = ({..<?N} \<subseteq> insert k S)" by auto
    finally show ?thesis .
  qed
  have res: "mcan_unpack_msg T frame s =
      Some (if {..<?N} \<subseteq> insert k S then Status_OK
            else Status_Cancelled ''Waiting for more CAN frames to complete the message'', ?s')"
    using big k by (simp add: mcan_unpack_msg_def Let_def idx ds cp all)
  have lw: "length ?w = ?n" using n v by simp
  have wn: "?w ! (j - k * 7) = v ! j" if "k * 7 \<le> j" and "j < k * 7 + ?n" for j
  proof -
    from that have "j - k * 7 < ?n" by arith
    then have "?w ! (j - k * 7) = drop (k * 7) v ! (j - k * 7)" by simp
    also have "\<dots> = v ! (k * 7 + (j - k * 7))" using n v by (intro nth_drop) simp
    also have "k * 7 + (j - k * 7) = j" using that by simp
    finally show ?thesis .
  qed
  have nth': "?value' ! j = (if k * 7 \<le> j \<and> j < k * 7 + ?n then v ! j else value_buf s ! j)"
    if "j < sizeof_value T" for j
  proof -
    have "?value' ! j = (if k * 7 \<le> j \<and> j < k * 7 + ?n then ?w ! (j - k * 7) else value_buf s ! j)"
      using lw n(3) that lv by (intro nth_write) simp_all
    then show ?thesis using wn [of j] by (cases "k * 7 \<le> j \<and> j < k * 7 + ?n") auto
  qed
  have val: "?value' ! j = v ! j"
    if i: "i \<in> insert k S" and j: "i * 7 \<le> j" "j < i * 7 + seg_len T i" for i j
  proof (cases "i = k")
    case True
    with j n have "j < sizeof_value T" by simp
    from nth' [OF this] True j show ?thesis by simp
  next
    case False
    with i have iS: "i \<in> S" by simp
    have sl: "seg_len T i \<le> 7" "i * 7 + seg_len T i \<le> sizeof_value T \<or> seg_len T i = 0"
      by (auto simp add: seg_len_def)
    with j have js: "j < sizeof_value T" by auto
    have "\<not> (k * 7 \<le> j \<and> j < k * 7 + ?n)"
      using False j sl(1) n(2) by arith
    with nth' [OF js] vl [OF iS j] show ?thesis by simp
  qed
  have lv': "length ?value' = sizeof_value T" using lw n(3) lv by simp
  have lr': "length ?received' = ?N" using lr by simp
  have rc': "?received' ! i = (i \<in> insert k S)" if "i < ?N" for i
    using that lr rc [OF that] by (cases "i = k") simp_all
  have "holds T v (insert k S) ?s'"
    unfolding holds_def using lv' lr' rc' val by simp
  with res show ?thesis by blast
qed

lemma holds_fresh: "holds T v {} (fresh T)"
  by (simp add: holds_def fresh_def)

lemma holds_complete:
  assumes T: "multi_segment T" and v: "length v = sizeof_value T"
    and h: "holds T v {..<expected_index_count T} s"
  shows "s = \<lparr>value_buf = v, received = replicate (expected_index_count T) True\<rparr>"
proof -
  let ?N = "expected_index_count T"
  from h have lv: "length (value_buf s) = sizeof_value T" and lr: "length (received s) = ?N"
    and rc: "\<And>i. i < ?N \<Longrightarrow> received s ! i"
    and vl: "\<And>i j. i < ?N \<Longrightarrow> i * 7 \<le> j \<Longrightarrow> j < i * 7 + seg_len T i \<Longrightarrow> value_buf s ! j = v ! j"
    by (simp_all add: holds_def)
  have "value_buf s ! j = v ! j" if j: "j < sizeof_value T" for j
  proof -
    from count_bounds(2) [OF T] j have i: "j div 7 < ?N" by arith
    have "j div 7 * 7 \<le> j" by simp
    moreover have "j < j div 7 * 7 + seg_len T (j div 7)"
      using j by (simp add: seg_len_def)
    ultimately show ?thesis using vl [OF i] by blast
  qed
  then have "value_buf s = v" using lv v by (intro nth_equalityI) simp_all
  moreover have "received s = replicate ?N True"
    using lr rc by (intro nth_equalityI) simp_all
  ultimately show ?thesis by (cases s) simp
qed

lemma unpack_all_segments:
  assumes T: "multi_segment T" and small: "expected_index_count T \<le> 256"
    and v: "length v = sizeof_value T"
    and segs: "\<And>k. k < expected_index_count T \<Longrightarrow> is_segment T v i k (fs ! k)"
  shows "holds T v S s \<Longrightarrow> set order \<subseteq> {..<expected_index_count T} \<Longrightarrow>
    \<exists>s'. unpack_all T (map (\<lambda>k. fs ! k) order) s =
           Some (map (\<lambda>m. if {..<expected_index_count T} \<subseteq> S \<union> set (take (Suc m) order)
                            then Status_OK else waiting) [0..<length order], s')
        \<and> holds T v (S \<union> set order) s'"
proof (induction order arbitrary: S s)
  case Nil
  then show ?case by simp
next
  case (Cons k order)
  let ?N = "expected_index_count T"
  from Cons.prems(2) have k: "k < ?N" and rest: "set order \<subseteq> {..<?N}" by simp_all
  from unpack_segment [OF T small v k segs [OF k] Cons.prems(1)] obtain s1 where
    step: "mcan_unpack_msg T (fs ! k) s =
             Some (if {..<?N} \<subseteq> insert k S then Status_OK else waiting, s1)"
    and h1: "holds T v (insert k S) s1"
    unfolding waiting_def by blast
  from Cons.IH [OF h1 rest] obtain s' where
    run: "unpack_all T (map (\<lambda>k. fs ! k) order) s1 =
            Some (map (\<lambda>m. if {..<?N} \<subseteq> insert k S \<union> set (take (Suc m) order)
                             then Status_OK else waiting) [0..<length order], s')"
    and h': "holds T v (insert k S \<union> set order) s'"
    by blast
  have sets: "insert k S \<union> set order = S \<union> set (k # order)" by auto
  have "[0..<length (k # order)] = 0 # map Suc [0..<length order]"
    by (simp add: upt_conv_Cons map_Suc_upt del: upt_Suc)
  then have "map (\<lambda>m. if {..<?N} \<subseteq> S \<union> set (take (Suc m) (k # order))
                        then Status_OK else waiting) [0..<length (k # order)]
      = (if {..<?N} \<subseteq> insert k S then Status_OK else waiting)
        # map (\<lambda>m. if {..<?N} \<subseteq> insert k S \<union> set (take (Suc m) order)
                      then Status_OK else waiting) [0..<length order]"
    by (simp add: comp_def del: upt_Suc)
  with step run h' sets show ?case by (simp del: upt_Suc)
qed

lemma completion_order:
  assumes d: "distinct order" and s: "set order = {..<N}" and m: "m < length order"
  shows "({..<N} \<subseteq> set (take (Suc m) order)) = (Suc m = N)"
proof -
  from d s have len: "length order = N" using distinct_card [of order] by simp
  show ?thesis
  proof (cases "Suc m = N")
    case True
    with len s show ?thesis by simp
  next
    case False
    with m len have lt: "Suc m < N" by simp
    have "card (set (take (Suc m) order)) \<le> length (take (Suc m) order)" by (rule card_length)
    also have "\<dots> < N" using lt len by simp
    finally have "card (set (take (Suc m) order)) < card {..<N}" by simp
    then have "\<not> {..<N} \<subseteq> set (take (Suc m) order)"
      using card_mono [of "set (take (Suc m) order)" "{..<N}"] by auto
    with False show ?thesis by simp
  qed
qed

lemma status_sequence:
  assumes d: "distinct order" and s: "set order = {..<N}" and N: "0 < N"
  shows "map (\<lambda>m. if {..<N} \<subseteq> {} \<union> set (take (Suc m) order) then Status_OK else waiting)
           [0..<length order] = replicate (N - 1) waiting @ [Status_OK]"
proof -
  from d s have len: "length order = N" using distinct_card [of order] by simp
  show ?thesis
  proof (rule nth_equalityI)
    show "length (map (\<lambda>m. if {..<N} \<subseteq> {} \<union> set (take (Suc m) order) then Status_OK else waiting)
           [0..<length order]) = length (replicate (N - 1) waiting @ [Status_OK])"
      using len N by simp
  next
    fix m assume "m < length (map (\<lambda>m. if {..<N} \<subseteq> {} \<union> set (take (Suc m) order)
        then Status_OK else waiting) [0..<length order])"
    then have m: "m < length order" by simp
    from completion_order [OF d s m] m len
    show "map (\<lambda>m. if {..<N} \<subseteq> {} \<union> set (take (Suc m) order) then Status_OK else waiting)
           [0..<length order] ! m = (replicate (N - 1) waiting @ [Status_OK]) ! m"
      by (auto simp add: nth_append simp del: upt_Suc)
  qed
qed

lemma roundtrip_from:
  assumes T: "multi_segment T" and small: "expected_index_count T \<le> 256"
    and v: "length v = sizeof_value T" and f: "frame_ok frame0"
    and d: "distinct order" and o: "set order = {..<expected_index_count T}"
  shows "unpack_all T (map (\<lambda>k. segments T frame0 v node_id ! k) order) (fresh T) =
           Some (replicate (expected_index_count T - 1) waiting @ [Status_OK],
                 \<lparr>value_buf = v, received = replicate (expected_index_count T) True\<rparr>)"
proof -
  let ?N = "expected_index_count T"
  from count_bounds(3) [OF T] have N: "0 < ?N" by simp
  from o have sub: "set order \<subseteq> {..<?N}" by simp
  from unpack_all_segments [OF T small v segments_nth [OF T v f] holds_fresh sub]
  obtain s' where
    run: "unpack_all T (map (\<lambda>k. segments T frame0 v node_id ! k) order) (fresh T) =
           Some (map (\<lambda>m. if {..<?N} \<subseteq> {} \<union> set (take (Suc m) order)
                            then Status_OK else waiting) [0..<length order], s')"
    and h: "holds T v ({} \<union> set order) s'" by blast
  from h o have "holds T v {..<?N} s'" by simp
  from holds_complete [OF T v this] run status_sequence [OF d o N] show ?thesis by simp
qed

section \<open>Example facts\<close>

lemma T20_facts:
  "multi_segment T20" "sizeof_value T20 \<le> 1792" "length V20 = sizeof_value T20"
  "expected_index_count T20 = 3" "sizeof_value T20 = 20"
  by (simp_all add: multi_segment_def static_assert_size_def MAX_STRUCT_SIZE_def T20_def V20_def
      expected_index_count_def)

lemma F9_ok: "frame_ok F9"
  by (simp add: frame_ok_def F9_def)

lemma T1793_facts:
  "multi_segment T1793" "length V1793 = sizeof_value T1793"
  "expected_index_count T1793 = 257" "sizeof_value T1793 = 1793"
  by (simp_all add: multi_segment_def static_assert_size_def MAX_STRUCT_SIZE_def T1793_def
      V1793_def expected_index_count_def)

lemma segments_T20:
  "segments T20 F9 V20 5 =
         [\<lparr>id_f = 0x123405, size_f = 8, data_f = [0, 100, 101, 102, 103, 104, 105, 106],
           is_remote_request = False, is_extended = True\<rparr>,
          \<lparr>id_f = 0x123405, size_f = 8, data_f = [1, 107, 108, 109, 110, 111, 112, 113],
           is_remote_request = False, is_extended = True\<rparr>,
          \<lparr>id_f = 0x123405, size_f = 7, data_f = [2, 114, 115, 116, 117, 118, 119, 113],
           is_remote_request = False, is_extended = True\<rparr>]"
  by code_simp

section \<open>The segments of a message\<close>

lemma count_ceil: "expected_index_count T = (sizeof_T T + 6) div 7"
  by (simp add: expected_index_count_def) arith

lemma count_small:
  assumes "multi_segment T" and "sizeof_value T \<le> 1792"
  shows "expected_index_count T \<le> 256"
  using assms by (simp add: count_ceil multi_segment_def)

text \<open>C3 (as amended). For every message type sent in several frames (more than 8 bytes)
  and every node id, \<open>mcan_pack_send_msg\<close> on a bus that accepts every frame sends exactly
  \<open>expected_index_count T = ceil(sizeof / 7)\<close> frames, in increasing segment order; the frame
  of segment \<open>k\<close> has the composed id without remote flag, carries \<open>n\<close> payload bytes of the
  value from offset \<open>7 k\<close> after its first data byte, where \<open>n = 7\<close> except for the last
  segment, where \<open>n = sizeof - 7 k\<close>, and has size \<open>n + 1 \<le> 8\<close>. Its first data byte equals
  \<open>k\<close> for every segment index below 256. A 20-byte value gives 3 segments with 7, 7 and 6
  payload bytes, the last frame of size 7.\<close>

theorem segments_structure:
  assumes "multi_segment T" and "length v = sizeof_value T" and "frame_ok frame0"
  shows "mcan_pack_send_msg (recording accepting) T frame0 ((), []) v node_id =
           Some (Status_OK, ((), segments T frame0 v node_id))
       \<and> length (segments T frame0 v node_id) = expected_index_count T
       \<and> expected_index_count T = (sizeof_value T + 6) div 7
       \<and> (\<forall>k < expected_index_count T.
             id_f (segments T frame0 v node_id ! k) =
               mcan_connect_msg_id_with_node_id (k_base_address T) (word_of_int node_id) False
           \<and> (k < 256 \<longrightarrow> unat (data_f (segments T frame0 v node_id ! k) ! 0) = k)
           \<and> seg_len T k = (if k = expected_index_count T - 1 then sizeof_value T - k * 7 else 7)
           \<and> take (seg_len T k) (drop 1 (data_f (segments T frame0 v node_id ! k))) =
               take (seg_len T k) (drop (k * 7) v)
           \<and> unat (size_f (segments T frame0 v node_id ! k)) = seg_len T k + 1
           \<and> unat (size_f (segments T frame0 v node_id ! k)) \<le> 8
           \<and> is_extended (segments T frame0 v node_id ! k)
           \<and> \<not> is_remote_request (segments T frame0 v node_id ! k))
       \<and> (sizeof_value T = 20 \<longrightarrow>
             expected_index_count T = 3 \<and> seg_len T 0 = 7 \<and> seg_len T 1 = 7 \<and> seg_len T 2 = 6
             \<and> unat (size_f (segments T frame0 v node_id ! 2)) = 7)"
proof -
  let ?N = "expected_index_count T"
  let ?segs = "segments T frame0 v node_id"
  have run: "mcan_pack_send_msg (recording accepting) T frame0 ((), []) v node_id =
           Some (Status_OK, ((), ?segs))"
    by (simp add: segments_run [OF assms] send_in_order_accepting)
  have len: "length ?segs = ?N" by (rule segments_length [OF assms])
  have ceil: "?N = (sizeof_value T + 6) div 7"
    using assms(1) by (simp add: count_ceil multi_segment_def)
  have each: "id_f (?segs ! k) =
               mcan_connect_msg_id_with_node_id (k_base_address T) (word_of_int node_id) False
           \<and> (k < 256 \<longrightarrow> unat (data_f (?segs ! k) ! 0) = k)
           \<and> seg_len T k = (if k = ?N - 1 then sizeof_value T - k * 7 else 7)
           \<and> take (seg_len T k) (drop 1 (data_f (?segs ! k))) = take (seg_len T k) (drop (k * 7) v)
           \<and> unat (size_f (?segs ! k)) = seg_len T k + 1
           \<and> unat (size_f (?segs ! k)) \<le> 8
           \<and> is_extended (?segs ! k) \<and> \<not> is_remote_request (?segs ! k)"
    if k: "k < ?N" for k
  proof -
    from segments_nth [OF assms k, of node_id]
    have sg: "is_segment T v (msg_id T node_id) k (?segs ! k)" .
    from seg_len_bounds [OF assms(1) k] have n: "1 \<le> seg_len T k" "seg_len T k \<le> 7" by simp_all
    have sl: "seg_len T k = (if k = ?N - 1 then sizeof_value T - k * 7 else 7)"
    proof (cases "k = ?N - 1")
      case True
      with seg_len_last(1) [OF assms(1) True] show ?thesis by simp
    next
      case False
      with k have "k < ?N - 1" by simp
      with seg_len_inner [OF assms(1) this] False show ?thesis by simp
    qed
    from sg have "size_f (?segs ! k) = word_of_nat (seg_len T k + 1)" by (simp add: is_segment_def)
    moreover have "unat (word_of_nat (seg_len T k + 1) :: u8) = seg_len T k + 1"
      using n by (intro unat_small) simp
    ultimately have sz: "unat (size_f (?segs ! k)) = seg_len T k + 1" by simp
    have ix: "unat (data_f (?segs ! k) ! 0) = k" if "k < 256"
      using sg unat_small [OF that] by (simp add: is_segment_def)
    from sg sl sz n ix show ?thesis by (simp add: is_segment_def msg_id_def)
  qed
  have ex: "?N = 3 \<and> seg_len T 0 = 7 \<and> seg_len T 1 = 7 \<and> seg_len T 2 = 6
             \<and> unat (size_f (?segs ! 2)) = 7" if s: "sizeof_value T = 20"
  proof -
    from ceil s have N: "?N = 3" by simp
    then have "(2::nat) < ?N" by simp
    from each [OF this] have "unat (size_f (?segs ! 2)) = seg_len T 2 + 1" by blast
    with N s show ?thesis by (simp add: seg_len_def)
  qed
  from run len ceil each ex show ?thesis by blast
qed

theorem segments_structure_witness:
  "multi_segment T20 \<and> length V20 = sizeof_value T20 \<and> frame_ok F9
   \<and> mcan_pack_send_msg (recording accepting) T20 F9 ((), []) V20 5 =
       Some (Status_OK, ((),
         [\<lparr>id_f = 0x123405, size_f = 8, data_f = [0, 100, 101, 102, 103, 104, 105, 106],
           is_remote_request = False, is_extended = True\<rparr>,
          \<lparr>id_f = 0x123405, size_f = 8, data_f = [1, 107, 108, 109, 110, 111, 112, 113],
           is_remote_request = False, is_extended = True\<rparr>,
          \<lparr>id_f = 0x123405, size_f = 7, data_f = [2, 114, 115, 116, 117, 118, 119, 113],
           is_remote_request = False, is_extended = True\<rparr>]))"
proof -
  from segments_structure [OF T20_facts(1,3) F9_ok, of 5] T20_facts(1,3) F9_ok
  show ?thesis unfolding segments_T20 by simp
qed

text \<open>C3 as stated fails: a message type of 1793 bytes is accepted by the static assertion
  and is sent in 257 frames; the frame of segment 256 carries the index byte 0, not 256.\<close>

theorem index_byte_256_counterexample:
  "sizeof_value T1793 = 1793 \<and> static_assert_size T1793
   \<and> length (segments T1793 F9 V1793 5) = 257
   \<and> unat (data_f (segments T1793 F9 V1793 5 ! 256) ! 0) = 0"
proof -
  have "(256::nat) < expected_index_count T1793" by (simp add: T1793_facts)
  from segments_nth [OF T1793_facts(1,2) F9_ok this, of 5]
  have "data_f (segments T1793 F9 V1793 5 ! 256) ! 0 = word_of_nat 256"
    by (simp add: is_segment_def)
  then have "unat (data_f (segments T1793 F9 V1793 5 ! 256) ! 0) = 0" by simp
  moreover have "length (segments T1793 F9 V1793 5) = 257"
    using segments_length [OF T1793_facts(1,2) F9_ok, of 5] by (simp add: T1793_facts)
  moreover have "static_assert_size T1793" using T1793_facts(1) by (simp add: multi_segment_def)
  ultimately show ?thesis by (simp add: T1793_facts)
qed

text \<open>C2. The claim is that the first data byte equals the true segment index for every
  message type the static assertion accepts. For the accepted type of 1793 bytes the frames
  of segments 0 and 256 both carry the index byte 0.\<close>

theorem index_byte_wraps:
  "static_assert_size T1793 \<and> sizeof_T T1793 = 1793
   \<and> length (segments T1793 F9 V1793 5) = 257
   \<and> data_f (segments T1793 F9 V1793 5 ! 256) ! 0 = 0
   \<and> data_f (segments T1793 F9 V1793 5 ! 0) ! 0 = 0"
proof -
  have "(256::nat) < expected_index_count T1793" by (simp add: T1793_facts)
  from segments_nth [OF T1793_facts(1,2) F9_ok this, of 5]
  have a: "data_f (segments T1793 F9 V1793 5 ! 256) ! 0 = 0"
    by (simp add: is_segment_def)
  have "(0::nat) < expected_index_count T1793" by (simp add: T1793_facts)
  from segments_nth [OF T1793_facts(1,2) F9_ok this, of 5]
  have b: "data_f (segments T1793 F9 V1793 5 ! 0) ! 0 = 0"
    by (simp add: is_segment_def)
  have "length (segments T1793 F9 V1793 5) = 257"
    using segments_length [OF T1793_facts(1,2) F9_ok, of 5] by (simp add: T1793_facts)
  moreover have "static_assert_size T1793" "sizeof_T T1793 = 1793"
    using T1793_facts(1,4) by (simp_all add: multi_segment_def)
  ultimately show ?thesis using a b by simp
qed

section \<open>Failing sends\<close>

lemma bus_after_Cons: "bus_after send b (f # fs) = bus_after send (snd (send b f)) fs"
  by (simp add: bus_after_def)

lemma reply_0: "reply send b (f # fs) 0 = fst (send b f)"
  by (simp add: reply_def bus_after_def)

lemma reply_Suc: "reply send b (f # fs) (Suc j) = reply send (snd (send b f)) fs j"
  by (simp add: reply_def bus_after_def)

lemma recording_step:
  "recording send (b, log) f = (fst (send b f), (snd (send b f), log @ [f]))"
  by (simp add: recording_def split: prod.splits)

lemma send_in_order_all_ok:
  "(\<And>j. j < length fs \<Longrightarrow> ok (reply send b fs j)) \<Longrightarrow>
   send_in_order (recording send) (b, log) fs = (Status_OK, (bus_after send b fs, log @ fs))"
proof (induction fs arbitrary: b log)
  case Nil
  then show ?case by (simp add: bus_after_def)
next
  case (Cons f fs)
  from Cons.prems [of 0] have ok0: "ok (fst (send b f))" by (simp add: reply_0)
  have "ok (reply send (snd (send b f)) fs j)" if "j < length fs" for j
    using Cons.prems [of "Suc j"] that by (simp add: reply_Suc)
  from Cons.IH [OF this] ok0 show ?case
    by (simp add: recording_step bus_after_Cons)
qed

lemma send_in_order_first_failure:
  "k < length fs \<Longrightarrow> (\<And>j. j < k \<Longrightarrow> ok (reply send b fs j)) \<Longrightarrow> \<not> ok (reply send b fs k) \<Longrightarrow>
   send_in_order (recording send) (b, log) fs =
     (reply send b fs k, (bus_after send b (take (Suc k) fs), log @ take (Suc k) fs))"
proof (induction fs arbitrary: b log k)
  case Nil
  then show ?case by simp
next
  case (Cons f fs)
  show ?case
  proof (cases k)
    case 0
    with Cons.prems(3) show ?thesis
      by (simp add: recording_step reply_0 bus_after_def)
  next
    case (Suc k')
    from Cons.prems(2) [of 0] Suc have ok0: "ok (fst (send b f))" by (simp add: reply_0)
    from Cons.prems(1) Suc have k': "k' < length fs" by simp
    have oks: "ok (reply send (snd (send b f)) fs j)" if "j < k'" for j
      using Cons.prems(2) [of "Suc j"] that Suc by (simp add: reply_Suc)
    from Cons.prems(3) Suc have bad: "\<not> ok (reply send (snd (send b f)) fs k')"
      by (simp add: reply_Suc)
    from Cons.IH [OF k' oks bad] ok0 Suc show ?thesis
      by (simp add: recording_step bus_after_Cons reply_Suc)
  qed
qed

text \<open>C9. For every message type sent in several frames and every bus: if the send of
  segment \<open>k\<close> is the first that returns a status that is not OK, \<open>mcan_pack_send_msg\<close> has
  handed exactly the segments \<open>0, \<dots>, k\<close> to \<open>send\<close>, in this order, and nothing else, and
  returns that status unchanged; if every send returns OK it has sent all
  \<open>expected_index_count T\<close> segments and returns \<open>Status::OK()\<close>.\<close>

theorem send_failure_stops:
  assumes "multi_segment T" and "length v = sizeof_value T" and "frame_ok frame0"
  shows "(\<forall>k < expected_index_count T.
            (\<forall>j < k. ok (reply send b (segments T frame0 v node_id) j))
            \<and> \<not> ok (reply send b (segments T frame0 v node_id) k) \<longrightarrow>
            mcan_pack_send_msg (recording send) T frame0 (b, []) v node_id =
              Some (reply send b (segments T frame0 v node_id) k,
                    (bus_after send b (take (Suc k) (segments T frame0 v node_id)),
                     take (Suc k) (segments T frame0 v node_id))))
       \<and> ((\<forall>j < expected_index_count T. ok (reply send b (segments T frame0 v node_id) j)) \<longrightarrow>
            mcan_pack_send_msg (recording send) T frame0 (b, []) v node_id =
              Some (Status_OK, (bus_after send b (segments T frame0 v node_id),
                                segments T frame0 v node_id)))
       \<and> length (segments T frame0 v node_id) = expected_index_count T"
proof -
  let ?segs = "segments T frame0 v node_id"
  have run: "mcan_pack_send_msg (recording send) T frame0 (b, []) v node_id =
      Some (send_in_order (recording send) (b, []) ?segs)"
    by (rule segments_run [OF assms])
  have len: "length ?segs = expected_index_count T" by (rule segments_length [OF assms])
  have fail: "mcan_pack_send_msg (recording send) T frame0 (b, []) v node_id =
      Some (reply send b ?segs k, (bus_after send b (take (Suc k) ?segs), take (Suc k) ?segs))"
    if "k < expected_index_count T" and "\<forall>j < k. ok (reply send b ?segs j)"
      and "\<not> ok (reply send b ?segs k)" for k
    using send_in_order_first_failure [of k ?segs send b "[]"] that len by (simp add: run)
  have good: "mcan_pack_send_msg (recording send) T frame0 (b, []) v node_id =
      Some (Status_OK, (bus_after send b ?segs, ?segs))"
    if "\<forall>j < expected_index_count T. ok (reply send b ?segs j)"
    using send_in_order_all_ok [of ?segs send b "[]"] that len by (simp add: run)
  from fail good len show ?thesis by blast
qed

theorem send_failure_stops_witness:
  "multi_segment T20 \<and> length V20 = sizeof_value T20 \<and> frame_ok F9
   \<and> ok (reply failing_second 0 (segments T20 F9 V20 5) 0)
   \<and> \<not> ok (reply failing_second 0 (segments T20 F9 V20 5) 1)
   \<and> mcan_pack_send_msg (recording failing_second) T20 F9 (0, []) V20 5 =
       Some (\<lparr>status_code = IOError, message = ''IOError|bus off''\<rparr>,
             (1, take 2 (segments T20 F9 V20 5)))
   \<and> mcan_pack_send_msg (recording accepting) T20 F9 ((), []) V20 5 =
       Some (Status_OK, ((), segments T20 F9 V20 5))"
proof -
  have r0: "ok (reply failing_second 0 (segments T20 F9 V20 5) 0)"
    unfolding segments_T20 by (simp add: reply_def bus_after_def failing_second_def ok_def Status_OK_def)
  have r1: "\<not> ok (reply failing_second 0 (segments T20 F9 V20 5) 1)"
    unfolding segments_T20 by (simp add: reply_def bus_after_def failing_second_def ok_def Status_OK_def)
  have r1v: "reply failing_second 0 (segments T20 F9 V20 5) 1 =
      \<lparr>status_code = IOError, message = ''IOError|bus off''\<rparr>"
    unfolding segments_T20 by (simp add: reply_def bus_after_def failing_second_def)
  have ba: "bus_after failing_second 0 (take 2 (segments T20 F9 V20 5)) = 1"
    unfolding segments_T20 by (simp add: bus_after_def failing_second_def)
  have oks: "\<forall>j < expected_index_count T20. ok (reply accepting () (segments T20 F9 V20 5) j)"
    by (simp add: reply_def accepting_def ok_def Status_OK_def)
  from send_failure_stops [OF T20_facts(1,3) F9_ok, of failing_second 0 5]
  have "1 < expected_index_count T20 \<longrightarrow>
        (\<forall>j < 1. ok (reply failing_second 0 (segments T20 F9 V20 5) j))
        \<and> \<not> ok (reply failing_second 0 (segments T20 F9 V20 5) 1) \<longrightarrow>
        mcan_pack_send_msg (recording failing_second) T20 F9 (0, []) V20 5 =
          Some (reply failing_second 0 (segments T20 F9 V20 5) 1,
                (bus_after failing_second 0 (take (Suc 1) (segments T20 F9 V20 5)),
                 take (Suc 1) (segments T20 F9 V20 5)))"
    by blast
  with r0 r1 r1v ba
  have "mcan_pack_send_msg (recording failing_second) T20 F9 (0, []) V20 5 =
       Some (\<lparr>status_code = IOError, message = ''IOError|bus off''\<rparr>,
             (1, take 2 (segments T20 F9 V20 5)))"
    by (simp add: T20_facts(4) numeral_2_eq_2)
  moreover from send_failure_stops [OF T20_facts(1,3) F9_ok, of accepting "()" 5] oks
  have "mcan_pack_send_msg (recording accepting) T20 F9 ((), []) V20 5 =
       Some (Status_OK, ((), segments T20 F9 V20 5))"
    by simp
  ultimately show ?thesis using r0 r1 T20_facts(1,3) F9_ok by simp
qed

section \<open>Round trip\<close>

text \<open>C1 (as amended). For every message type with more than 8 and at most 1792 bytes (at
  most 256 segments) and every value \<open>v\<close>, \<open>mcan_pack_send_msg\<close> produces
  \<open>N = ceil(sizeof / 7)\<close> frames, and feeding these frames to \<open>mcan_unpack_msg\<close> on a fresh
  buffer in any order, each segment once, reports the waiting status on the first \<open>N - 1\<close>
  calls and OK on the last, after which the value of the buffer is \<open>v\<close> and all bits are
  set.\<close>

theorem roundtrip_any_order:
  assumes "multi_segment T" and "sizeof_value T \<le> 1792"
    and "length v = sizeof_value T" and "frame_ok frame0"
    and "distinct order" and "set order = {..<expected_index_count T}"
  shows "length (segments T frame0 v node_id) = expected_index_count T
       \<and> expected_index_count T = (sizeof_value T + 6) div 7
       \<and> unpack_all T (map (\<lambda>k. segments T frame0 v node_id ! k) order) (fresh T) =
           Some (replicate (expected_index_count T - 1) waiting @ [Status_OK],
                 \<lparr>value_buf = v, received = replicate (expected_index_count T) True\<rparr>)"
proof -
  have "expected_index_count T = (sizeof_value T + 6) div 7"
    using assms(1) by (simp add: count_ceil multi_segment_def)
  with segments_length [OF assms(1,3,4)]
    roundtrip_from [OF assms(1) count_small [OF assms(1,2)] assms(3-6)]
  show ?thesis by simp
qed

theorem roundtrip_any_order_witness:
  "multi_segment T20 \<and> sizeof_value T20 \<le> 1792 \<and> length V20 = sizeof_value T20 \<and> frame_ok F9
   \<and> distinct [2, 0, 1 :: nat] \<and> set [2, 0, 1] = {..<expected_index_count T20}
   \<and> length (segments T20 F9 V20 5) = 3
   \<and> unpack_all T20 (map (\<lambda>k. segments T20 F9 V20 5 ! k) [2, 0, 1]) (fresh T20) =
        Some ([waiting, waiting, Status_OK], \<lparr>value_buf = V20, received = [True, True, True]\<rparr>)"
proof -
  have d: "distinct [2, 0, 1 :: nat]" by simp
  have s: "set [2, 0, 1] = {..<expected_index_count T20}"
    unfolding T20_facts(4) by auto
  from roundtrip_any_order [OF T20_facts(1,2,3) F9_ok d s, of 5] T20_facts F9_ok d s
  show ?thesis by (simp add: numeral_2_eq_2 numeral_3_eq_3 del: unpack_all.simps)
qed

lemma unpack_never_complete:
  assumes big: "8 < sizeof_value T" and len: "256 < length (received s)"
    and clr: "\<not> received s ! 256" and res: "mcan_unpack_msg T frame s = Some (x, s')"
  shows "x \<noteq> Status_OK \<and> 256 < length (received s') \<and> \<not> received s' ! 256"
proof -
  let ?i = "unat (data_f frame ! 0)"
  have "?i < 2 ^ LENGTH(8)" by (rule unsigned_less)
  then have i: "?i \<noteq> 256" by simp
  have nall: "\<not> list_all (\<lambda>b. b) ((received s)[?i := True])"
    using len clr i by (auto simp add: list_all_length)
  from big res nall len clr i show ?thesis
    by (auto simp add: mcan_unpack_msg_def Let_def Status_OK_def Status_Invalid_def
        Status_Cancelled_def split: if_splits option.splits)
qed

lemma unpack_all_never_complete:
  assumes big: "8 < sizeof_value T"
  shows "256 < length (received s) \<Longrightarrow> \<not> received s ! 256 \<Longrightarrow>
    unpack_all T frames s = Some (xs, s') \<Longrightarrow> Status_OK \<notin> set xs"
proof (induction frames arbitrary: s xs)
  case Nil
  then show ?case by simp
next
  case (Cons frame frames)
  from Cons.prems(3) obtain x s1 xs1 where
    step: "mcan_unpack_msg T frame s = Some (x, s1)" and
    run: "unpack_all T frames s1 = Some (xs1, s')" and xs: "xs = x # xs1"
    by (auto split: option.splits prod.splits)
  from unpack_never_complete [OF big Cons.prems(1,2) step]
  have "x \<noteq> Status_OK" "256 < length (received s1)" "\<not> received s1 ! 256" by simp_all
  with Cons.IH [OF _ _ run] xs show ?case by simp
qed

text \<open>C1 as stated fails: for the accepted message type of 1793 bytes the 257 frames of the
  all-zero value, fed in order to a fresh buffer, do not end in OK with the value rebuilt
  (bit 256 of \<open>received\<close> can never be set by a one-byte index).\<close>

theorem roundtrip_1793_counterexample:
  "sizeof_value T1793 = 1793 \<and> static_assert_size T1793
   \<and> length (segments T1793 F9 V1793 5) = 257
   \<and> unpack_all T1793 (segments T1793 F9 V1793 5) (fresh T1793)
       \<noteq> Some (replicate 256 waiting @ [Status_OK],
                \<lparr>value_buf = V1793, received = replicate 257 True\<rparr>)"
proof -
  have big: "8 < sizeof_value T1793" by (simp add: T1793_facts)
  have fr: "256 < length (received (fresh T1793))" "\<not> received (fresh T1793) ! 256"
    by (simp_all add: fresh_def T1793_facts)
  have "unpack_all T1793 (segments T1793 F9 V1793 5) (fresh T1793)
       \<noteq> Some (replicate 256 waiting @ [Status_OK],
                \<lparr>value_buf = V1793, received = replicate 257 True\<rparr>)"
  proof
    assume "unpack_all T1793 (segments T1793 F9 V1793 5) (fresh T1793)
       = Some (replicate 256 waiting @ [Status_OK],
                \<lparr>value_buf = V1793, received = replicate 257 True\<rparr>)"
    from unpack_all_never_complete [OF big fr this] show False by simp
  qed
  moreover have "length (segments T1793 F9 V1793 5) = 257"
    using segments_length [OF T1793_facts(1,2) F9_ok, of 5] by (simp add: T1793_facts)
  moreover have "static_assert_size T1793" using T1793_facts(1) by (simp add: multi_segment_def)
  ultimately show ?thesis by (simp add: T1793_facts)
qed

section \<open>Frames with a bad index, repeated and malformed segments\<close>

lemma index_byte_lt_256: "unat (w :: u8) < 256"
proof -
  have "unat w < 2 ^ LENGTH(8)" by (rule unsigned_less)
  then show ?thesis by simp
qed

text \<open>C5. For every message type sent in several frames and every buffer: a frame whose
  first data byte is at least \<open>expected_index_count T\<close> is answered with an Invalid status,
  and the buffer returned has every bit of \<open>received\<close> clear and a zeroed value; the complete
  segments of a value \<open>v\<close>, delivered after it in any order, each once, end in OK with the
  value of the buffer equal to \<open>v\<close>.\<close>

theorem bad_index_resets:
  assumes T: "multi_segment T" and f: "frame_ok frame"
    and bad: "expected_index_count T \<le> unat (data_f frame ! 0)"
    and s: "length (value_buf s) = sizeof_value T" "length (received s) = expected_index_count T"
    and v: "length v = sizeof_value T" and f0: "frame_ok frame0"
    and d: "distinct order" and o: "set order = {..<expected_index_count T}"
  shows "mcan_unpack_msg T frame s =
           Some (Status_Invalid ''Received CAN frame index out of bounds'',
                 \<lparr>value_buf = replicate (sizeof_value T) 0,
                  received = replicate (expected_index_count T) False\<rparr>)
       \<and> unpack_all T (frame # map (\<lambda>k. segments T frame0 v node_id ! k) order) s =
           Some (Status_Invalid ''Received CAN frame index out of bounds''
                   # replicate (expected_index_count T - 1) waiting @ [Status_OK],
                 \<lparr>value_buf = v, received = replicate (expected_index_count T) True\<rparr>)"
proof -
  from T have big: "\<not> sizeof_value T \<le> 8" by (simp add: multi_segment_def)
  have step: "mcan_unpack_msg T frame s =
           Some (Status_Invalid ''Received CAN frame index out of bounds'', fresh T)"
    using big bad s by (cases s) (simp add: mcan_unpack_msg_def fresh_def)
  from bad index_byte_lt_256 [of "data_f frame ! 0"]
  have small: "expected_index_count T \<le> 256" by simp
  from roundtrip_from [OF T small v f0 d o, of node_id] step
  show ?thesis by (simp add: fresh_def)
qed

theorem bad_index_resets_witness:
  "multi_segment T20 \<and> frame_ok (F9\<lparr>data_f := [3, 1, 1, 1, 1, 1, 1, 1], size_f := 8\<rparr>)
   \<and> expected_index_count T20 \<le> unat (data_f (F9\<lparr>data_f := [3, 1, 1, 1, 1, 1, 1, 1], size_f := 8\<rparr>) ! 0)
   \<and> distinct [1, 2, 0 :: nat] \<and> set [1, 2, 0] = {..<expected_index_count T20}
   \<and> unpack_all T20 (F9\<lparr>data_f := [3, 1, 1, 1, 1, 1, 1, 1], size_f := 8\<rparr>
         # map (\<lambda>k. segments T20 F9 V20 5 ! k) [1, 2, 0])
       \<lparr>value_buf = replicate 20 7, received = [True, False, True]\<rparr> =
     Some ([Status_Invalid ''Received CAN frame index out of bounds'', waiting, waiting, Status_OK],
           \<lparr>value_buf = V20, received = [True, True, True]\<rparr>)"
proof -
  let ?bad = "F9\<lparr>data_f := [3, 1, 1, 1, 1, 1, 1, 1], size_f := 8\<rparr>"
  have f: "frame_ok ?bad" by (simp add: frame_ok_def)
  have b: "expected_index_count T20 \<le> unat (data_f ?bad ! 0)" by (simp add: T20_facts)
  have s: "length (value_buf \<lparr>value_buf = replicate 20 7, received = [True, False, True]\<rparr>)
             = sizeof_value T20"
      "length (received \<lparr>value_buf = replicate 20 7, received = [True, False, True]\<rparr>)
             = expected_index_count T20"
    by (simp_all add: T20_facts)
  have d: "distinct [1, 2, 0 :: nat]" by simp
  have o: "set [1, 2, 0] = {..<expected_index_count T20}" unfolding T20_facts(4) by auto
  from bad_index_resets [OF T20_facts(1) f b s T20_facts(3) F9_ok d o, of 5] T20_facts(1) f b d o
  show ?thesis by (simp add: T20_facts(4) numeral_2_eq_2 numeral_3_eq_3 del: unpack_all.simps)
qed

lemma take_drop_rejoin:
  "take off xs @ take n (drop off xs) @ drop (off + n) xs = xs"
proof -
  have "take n (drop off xs) @ drop (off + n) xs = drop off xs"
    by (metis add.commute append_take_drop_id drop_drop)
  then show ?thesis by simp
qed

lemma memcpy_same:
  assumes "off + n \<le> length dst" and "soff + n \<le> length src"
    and "take n (drop soff src) = take n (drop off dst)"
  shows "memcpy dst off src soff n = Some dst"
  using assms by (simp add: memcpy_def take_drop_rejoin)

text \<open>C8. For every message type sent in several frames and every buffer: a frame whose
  index is in range and already marked in \<open>received\<close>, and whose \<open>size - 1\<close> payload bytes
  equal the bytes the buffer holds at offset \<open>7 index\<close>, leaves the buffer (value and
  received bits) unchanged, and the status is OK exactly if the buffer was complete
  before.\<close>

theorem redelivery_idempotent:
  assumes big: "8 < sizeof_value T" and f: "frame_ok frame"
    and idx: "unat (data_f frame ! 0) < expected_index_count T"
    and len: "length (received s) = expected_index_count T"
    and got: "received s ! unat (data_f frame ! 0)"
    and sz: "1 \<le> unat (size_f frame)" "unat (size_f frame) \<le> 8"
    and inb: "unat (data_f frame ! 0) * 7 + (unat (size_f frame) - 1) \<le> length (value_buf s)"
    and same: "take (unat (size_f frame) - 1) (drop 1 (data_f frame)) =
               take (unat (size_f frame) - 1) (drop (unat (data_f frame ! 0) * 7) (value_buf s))"
  shows "mcan_unpack_msg T frame s =
           Some (if list_all (\<lambda>b. b) (received s) then Status_OK else waiting, s)"
proof -
  let ?i = "unat (data_f frame ! 0)"
  from sz(1) obtain n where n: "unat (size_f frame) = Suc n"
    by (cases "unat (size_f frame)") simp_all
  then have "unat (size_f frame) \<noteq> 0" by simp
  then have "unat (data_size frame) = unat (size_f frame) - 1"
    unfolding data_size_def by (rule data_size_pos)
  with n have ds: "unat (data_size frame) = n" by simp
  from inb n have dst: "?i * 7 + n \<le> length (value_buf s)" by simp
  from sz(2) f n have src: "Suc 0 + n \<le> length (data_f frame)" by (simp add: frame_ok_def)
  from same n have eq: "take n (drop (Suc 0) (data_f frame)) = take n (drop (?i * 7) (value_buf s))"
    by simp
  have cp: "memcpy (value_buf s) (?i * 7) (data_f frame) (Suc 0) n = Some (value_buf s)"
    using dst src eq by (rule memcpy_same)
  have rc: "(received s)[?i := True] = received s"
    using got by (metis list_update_id)
  from big idx show ?thesis
    by (simp add: mcan_unpack_msg_def Let_def ds cp rc waiting_def)
qed

theorem redelivery_idempotent_witness:
  "mcan_unpack_msg T20
     \<lparr>id_f = 0x123405, size_f = 8, data_f = [1, 107, 108, 109, 110, 111, 112, 113],
      is_remote_request = False, is_extended = True\<rparr>
     \<lparr>value_buf = [0, 0, 0, 0, 0, 0, 0, 107, 108, 109, 110, 111, 112, 113, 0, 0, 0, 0, 0, 0],
      received = [False, True, False]\<rparr>
   = Some (waiting,
       \<lparr>value_buf = [0, 0, 0, 0, 0, 0, 0, 107, 108, 109, 110, 111, 112, 113, 0, 0, 0, 0, 0, 0],
        received = [False, True, False]\<rparr>)"
  using redelivery_idempotent [of T20
     "\<lparr>id_f = 0x123405, size_f = 8, data_f = [1, 107, 108, 109, 110, 111, 112, 113],
      is_remote_request = False, is_extended = True\<rparr>"
     "\<lparr>value_buf = [0, 0, 0, 0, 0, 0, 0, 107, 108, 109, 110, 111, 112, 113, 0, 0, 0, 0, 0, 0],
      received = [False, True, False]\<rparr>"]
  by (simp add: T20_facts frame_ok_def)




end
